theory Spec2Isabelle
  imports Complex_Main
begin

section \<open>Historian migration: data model\<close>

text \<open>
  Source: \<^verbatim>\<open>scripts/migration/migrate_historian_data.py\<close>, class
  \<^verbatim>\<open>HistorianMigration\<close>.

  A row carries the seven columns that \<^verbatim>\<open>migrate_batch\<close> selects and inserts.
  The columns \<^verbatim>\<open>tagid\<close>, \<^verbatim>\<open>dataintegrity\<close> and \<^verbatim>\<open>t_stamp\<close> are taken
  as non-null, the value columns as nullable.
\<close>

record row =
  tagid :: int
  intvalue :: "int option"
  floatvalue :: "real option"
  stringvalue :: "string option"
  datevalue :: "int option"
  dataintegrity :: int
  t_stamp :: int

text \<open>
  A table is the list of its rows in insertion order. A database maps a table name to
  its table (\<open>None\<close>: no such table). A connection handle stands for the database it
  is connected to, and the store gives the contents behind each handle, so that
  \<^verbatim>\<open>self.target_conn = self.source_conn\<close> (as \<^verbatim>\<open>connect\<close> sets it for equal
  configurations) is the same handle twice.
\<close>

type_synonym table = "row list"
type_synonym database = "string \<Rightarrow> table option"
type_synonym conn = nat
type_synonym store = "conn \<Rightarrow> database"

record HistorianMigration =
  source_conn :: conn
  target_conn :: conn
  batch_size :: int

text \<open>
  \<open>TypeError\<close> is Python's error for ordering \<^verbatim>\<open>None\<close>; \<open>UndefinedTable\<close> is
  the database driver's error for a statement on a table that does not exist.
\<close>

datatype error = TypeError | UndefinedTable

text \<open>
  The uniqueness constraint of the target table is declared outside this program.
  It is a parameter \<open>uq\<close> of the model: \<open>uq r r'\<close> says that the new row \<open>r\<close>
  conflicts with the stored row \<open>r'\<close>. A table with no constraint has
  \<open>uq = (\<lambda>_ _. False)\<close>.
\<close>

type_synonym uniqueness = "row \<Rightarrow> row \<Rightarrow> bool"

section \<open>The statements issued by the program\<close>

text \<open>\<^verbatim>\<open>SELECT ... WHERE t_stamp >= %s AND t_stamp < %s ORDER BY t_stamp\<close>\<close>

definition in_window :: "int \<Rightarrow> int \<Rightarrow> row \<Rightarrow> bool" where
  "in_window start_ts end_ts r \<longleftrightarrow> start_ts \<le> t_stamp r \<and> t_stamp r < end_ts"

definition select_window :: "table \<Rightarrow> int \<Rightarrow> int \<Rightarrow> row list" where
  "select_window t start_ts end_ts = sort_key t_stamp (filter (in_window start_ts end_ts) t)"

text \<open>\<^verbatim>\<open>INSERT INTO ... VALUES (...) ON CONFLICT DO NOTHING\<close>, one row.\<close>

definition insert_do_nothing :: "uniqueness \<Rightarrow> table \<Rightarrow> row \<Rightarrow> table" where
  "insert_do_nothing uq t r = (if \<exists>r' \<in> set t. uq r r' then t else t @ [r])"

text \<open>\<^verbatim>\<open>executemany\<close> runs the statement once per record, in order.\<close>

definition executemany :: "uniqueness \<Rightarrow> table \<Rightarrow> row list \<Rightarrow> table" where
  "executemany uq t records = foldl (insert_do_nothing uq) t records"

text \<open>\<^verbatim>\<open>SELECT MIN(t_stamp), MAX(t_stamp)\<close>: both are NULL on a table without rows.\<close>

definition select_min_max :: "table \<Rightarrow> int option \<times> int option" where
  "select_min_max t =
     (if t = [] then (None, None)
      else (Some (Min (set (map t_stamp t))), Some (Max (set (map t_stamp t)))))"

text \<open>\<^verbatim>\<open>SELECT COUNT(DISTINCT tagid)\<close>\<close>

definition count_distinct_tagid :: "table \<Rightarrow> nat" where
  "count_distinct_tagid t = length (remdups (map tagid t))"

section \<open>migrate_batch\<close>

definition migrate_batch ::
  "HistorianMigration \<Rightarrow> uniqueness \<Rightarrow> int \<Rightarrow> int \<Rightarrow> string \<Rightarrow> string \<Rightarrow> store
     \<Rightarrow> (error + nat) \<times> store" where
  "migrate_batch self uq start_ts end_ts source_table target_table st =
     (case st (source_conn self) source_table of
        None \<Rightarrow> (Inl UndefinedTable, st)
      | Some src \<Rightarrow>
          let records = select_window src start_ts end_ts in
          if records = [] then (Inr 0, st)
          else
            (case st (target_conn self) target_table of
               None \<Rightarrow> (Inl UndefinedTable, st)
             | Some tgt \<Rightarrow>
                 (Inr (length records),
                  st(target_conn self :=
                       (st (target_conn self))(target_table \<mapsto> executemany uq tgt records)))))"

section \<open>migrate_all\<close>

definition batch_interval :: int where
  "batch_interval = 86400000"

text \<open>
  One entry per call \<^verbatim>\<open>self.migrate_batch(current_ts, end_ts, ...)\<close> of the loop:
  the two bounds and the returned count.
\<close>

type_synonym batch_call = "int \<times> int \<times> nat"

text \<open>
  The \<^verbatim>\<open>while current_ts < max_ts\<close> loop with its variables \<^verbatim>\<open>current_ts\<close>,
  \<^verbatim>\<open>total_migrated\<close> and \<^verbatim>\<open>batch_num\<close>. The list \<open>calls\<close> is not a variable of the
  program: it records the calls of \<^verbatim>\<open>migrate_batch\<close> so that the windows can be
  talked about. An exception of \<^verbatim>\<open>migrate_batch\<close> leaves the loop.
\<close>

function migrate_loop ::
  "HistorianMigration \<Rightarrow> uniqueness \<Rightarrow> string \<Rightarrow> string \<Rightarrow> int \<Rightarrow> int \<Rightarrow> nat \<Rightarrow> nat
     \<Rightarrow> batch_call list \<Rightarrow> store \<Rightarrow> (error + nat \<times> nat \<times> batch_call list) \<times> store" where
  "migrate_loop self uq source_table target_table max_ts current_ts total_migrated batch_num calls st =
     (if current_ts < max_ts then
        (let end_ts = min (current_ts + batch_interval) max_ts in
         case migrate_batch self uq current_ts end_ts source_table target_table st of
           (Inl e, st') \<Rightarrow> (Inl e, st')
         | (Inr migrated, st') \<Rightarrow>
             migrate_loop self uq source_table target_table max_ts end_ts
               (total_migrated + migrated) (batch_num + 1)
               (calls @ [(current_ts, end_ts, migrated)]) st')
      else (Inr (total_migrated, batch_num, calls), st))"
  by pat_completeness auto
termination
  by (relation "measure (\<lambda>(self, uq, source_table, target_table, max_ts, current_ts, r).
        nat (max_ts - current_ts))")
     (auto simp: batch_interval_def)

text \<open>
  \<^verbatim>\<open>min_ts, max_ts = cur.fetchone()\<close> gives \<^verbatim>\<open>(None, None)\<close> on a table without
  rows, and then the first test \<^verbatim>\<open>current_ts < max_ts\<close> raises \<^verbatim>\<open>TypeError\<close>.
  The result is \<^verbatim>\<open>total_migrated\<close>, here with the final \<^verbatim>\<open>batch_num\<close> and the calls.
\<close>

definition migrate_all ::
  "HistorianMigration \<Rightarrow> uniqueness \<Rightarrow> string \<Rightarrow> string \<Rightarrow> store
     \<Rightarrow> (error + nat \<times> nat \<times> batch_call list) \<times> store" where
  "migrate_all self uq source_table target_table st =
     (case st (source_conn self) source_table of
        None \<Rightarrow> (Inl UndefinedTable, st)
      | Some src \<Rightarrow>
          (case select_min_max src of
             (Some min_ts, Some max_ts) \<Rightarrow>
               migrate_loop self uq source_table target_table max_ts min_ts 0 0 [] st
           | _ \<Rightarrow> (Inl TypeError, st)))"

section \<open>validate_migration\<close>

text \<open>
  The log lines of \<^verbatim>\<open>validate_migration\<close>, one constructor per format string,
  with the numbers it prints.
\<close>

datatype level = INFO | WARNING

datatype message =
    Validating
  | SourceRecords nat
  | TargetRecords nat
  | RecordCountsMatch
  | RecordCountMismatch int
  | TimestampRangesMatch
  | TimestampRangeMismatch
  | TagCountsMatch nat
  | TagCountMismatch nat nat

type_synonym log = "(level \<times> message) list"

text \<open>
  The function issues \<^verbatim>\<open>SELECT\<close> statements only. The first statement on a table
  that does not exist raises; after both counts have been read no statement can
  fail. The result is the outcome (Python's \<^verbatim>\<open>None\<close> as \<open>()\<close>), the lines logged
  and the store afterwards.
\<close>

definition validate_migration ::
  "HistorianMigration \<Rightarrow> string \<Rightarrow> string \<Rightarrow> store \<Rightarrow> (error + unit) \<times> log \<times> store" where
  "validate_migration self source_table target_table st =
     (case st (source_conn self) source_table of
        None \<Rightarrow> (Inl UndefinedTable, [(INFO, Validating)], st)
      | Some src \<Rightarrow>
          (case st (target_conn self) target_table of
             None \<Rightarrow> (Inl UndefinedTable, [(INFO, Validating)], st)
           | Some tgt \<Rightarrow>
               let source_count = length src;
                   target_count = length tgt;
                   src_range = select_min_max src;
                   tgt_range = select_min_max tgt;
                   src_tags = count_distinct_tagid src;
                   tgt_tags = count_distinct_tagid tgt
               in (Inr (),
                   [(INFO, Validating),
                    (INFO, SourceRecords source_count),
                    (INFO, TargetRecords target_count),
                    (if source_count = target_count then (INFO, RecordCountsMatch)
                     else (WARNING, RecordCountMismatch (int source_count - int target_count))),
                    (if src_range = tgt_range then (INFO, TimestampRangesMatch)
                     else (WARNING, TimestampRangeMismatch)),
                    (if src_tags = tgt_tags then (INFO, TagCountsMatch src_tags)
                     else (WARNING, TagCountMismatch src_tags tgt_tags))],
                   st)))"

section \<open>Notions used in the statements\<close>

text \<open>
  Source and target are the same table when both roles use the same connection and
  the same table name (the defaults of \<^verbatim>\<open>migrate_all\<close> on one database).
\<close>

definition aliased :: "HistorianMigration \<Rightarrow> string \<Rightarrow> string \<Rightarrow> bool" where
  "aliased self source_table target_table \<longleftrightarrow>
     source_conn self = target_conn self \<and> source_table = target_table"

text \<open>
  Every source row of the window \<open>[lo, hi)\<close> already has a conflicting row in the
  target, so that inserting it does nothing.
\<close>

definition covered ::
  "uniqueness \<Rightarrow> HistorianMigration \<Rightarrow> string \<Rightarrow> string \<Rightarrow> int \<Rightarrow> int \<Rightarrow> store \<Rightarrow> bool" where
  "covered uq self source_table target_table lo hi st \<longleftrightarrow>
     (\<forall>src tgt. st (source_conn self) source_table = Some src \<longrightarrow>
        st (target_conn self) target_table = Some tgt \<longrightarrow>
        (\<forall>r \<in> set src. in_window lo hi r \<longrightarrow> (\<exists>r' \<in> set tgt. uq r r')))"

text \<open>
  The calls that the loop makes from \<open>current_ts = c\<close> up to \<open>max_ts = hi\<close>: each
  window starts where the previous one ended and ends at
  \<open>min (start + batch_interval) hi\<close>.
\<close>

fun tiles :: "int \<Rightarrow> int \<Rightarrow> batch_call list \<Rightarrow> bool" where
  "tiles c hi [] \<longleftrightarrow> \<not> c < hi"
| "tiles c hi ((a, b, k) # ws) \<longleftrightarrow>
     a = c \<and> c < hi \<and> b = min (c + batch_interval) hi \<and> tiles b hi ws"

section \<open>Concrete data for the scenarios\<close>

definition reading :: "int \<Rightarrow> int \<Rightarrow> row" where
  "reading tag ts =
     \<lparr>tagid = tag, intvalue = None, floatvalue = None, stringvalue = None,
      datevalue = None, dataintegrity = 192, t_stamp = ts\<rparr>"

text \<open>One database behind connection 0, holding a source and a target table.\<close>

definition historian_db :: "table \<Rightarrow> table \<Rightarrow> store" where
  "historian_db src tgt =
     (\<lambda>c. if c = 0 then [''sqlth_1_data'' \<mapsto> src, ''sqlth_1_data_ts'' \<mapsto> tgt] else Map.empty)"

definition mig :: HistorianMigration where
  "mig = \<lparr>source_conn = 0, target_conn = 0, batch_size = 100000\<rparr>"

text \<open>A target whose unique key is \<open>(tagid, t_stamp)\<close>.\<close>

definition tag_time_key :: uniqueness where
  "tag_time_key r r' \<longleftrightarrow> tagid r = tagid r' \<and> t_stamp r = t_stamp r'"

section \<open>Properties of the statements\<close>

declare migrate_loop.simps [simp del]

lemma insert_do_nothing_conflict:
  "\<exists>r' \<in> set t. uq r r' \<Longrightarrow> insert_do_nothing uq t r = t"
  by (simp add: insert_do_nothing_def)

lemma executemany_Nil: "executemany uq t [] = t"
  by (simp add: executemany_def)

lemma executemany_Cons:
  "executemany uq t (r # rs) = executemany uq (insert_do_nothing uq t r) rs"
  by (simp add: executemany_def)

lemma executemany_noop:
  "\<forall>r \<in> set rs. \<exists>r' \<in> set t. uq r r' \<Longrightarrow> executemany uq t rs = t"
  by (induction rs) (simp_all add: executemany_Nil executemany_Cons insert_do_nothing_conflict)

lemma executemany_appends:
  "\<exists>added. executemany uq t rs = t @ added \<and> set added \<subseteq> set rs"
proof (induction rs arbitrary: t)
  case Nil
  show ?case by (simp add: executemany_Nil)
next
  case (Cons r rs)
  obtain added where a: "executemany uq (insert_do_nothing uq t r) rs = insert_do_nothing uq t r @ added"
    and b: "set added \<subseteq> set rs"
    using Cons.IH by blast
  show ?case
  proof (cases "\<exists>r' \<in> set t. uq r r'")
    case True
    then show ?thesis using a b by (auto simp: executemany_Cons insert_do_nothing_def)
  next
    case False
    then have "executemany uq t (r # rs) = t @ (r # added)"
      using a by (simp add: executemany_Cons insert_do_nothing_def)
    moreover have "set (r # added) \<subseteq> set (r # rs)" using b by auto
    ultimately show ?thesis by blast
  qed
qed

lemma set_executemany_mono: "set t \<subseteq> set (executemany uq t rs)"
  using executemany_appends [of uq t rs] by auto

lemma insert_do_nothing_covers:
  "uq r r \<Longrightarrow> \<exists>r' \<in> set (insert_do_nothing uq t r). uq r r'"
  by (auto simp: insert_do_nothing_def)

lemma executemany_covers:
  "\<forall>r. uq r r \<Longrightarrow> r \<in> set rs \<Longrightarrow> \<exists>r' \<in> set (executemany uq t rs). uq r r'"
proof (induction rs arbitrary: t)
  case Nil
  then show ?case by simp
next
  case (Cons a rs)
  show ?case
  proof (cases "r = a")
    case True
    obtain r' where "r' \<in> set (insert_do_nothing uq t a)" "uq r r'"
      using insert_do_nothing_covers [of uq a t] Cons.prems(1) True by blast
    then show ?thesis
      using set_executemany_mono [of "insert_do_nothing uq t a" uq rs]
      by (auto simp: executemany_Cons)
  next
    case False
    then have "r \<in> set rs" using Cons.prems(2) by simp
    then show ?thesis using Cons.IH [OF Cons.prems(1)] by (simp add: executemany_Cons)
  qed
qed

lemma set_select_window:
  "set (select_window t a b) = {r \<in> set t. in_window a b r}"
  by (simp add: select_window_def)

lemma length_select_window:
  "length (select_window t a b) = length (filter (in_window a b) t)"
  by (simp add: select_window_def)

lemma select_window_empty:
  "select_window t a b = [] \<longleftrightarrow> (\<forall>r \<in> set t. \<not> in_window a b r)"
proof -
  have "select_window t a b = [] \<longleftrightarrow> set (select_window t a b) = {}" by simp
  then show ?thesis unfolding set_select_window by blast
qed

section \<open>Properties of migrate_batch\<close>

lemma store_upd_same:
  "st c n = Some t \<Longrightarrow> st(c := (st c)(n \<mapsto> t)) = st"
  by (simp add: map_upd_triv)

lemma migrate_batch_error:
  "migrate_batch self uq a b s t st = (Inl e, st') \<Longrightarrow>
     st' = st \<and> (st (source_conn self) s = None \<or> st (target_conn self) t = None)"
  by (auto simp: migrate_batch_def Let_def split: option.splits if_splits)

lemma migrate_batch_covered_noop:
  assumes "covered uq self s t a b st"
  shows "snd (migrate_batch self uq a b s t st) = st"
proof (cases "st (source_conn self) s")
  case None
  then show ?thesis by (simp add: migrate_batch_def)
next
  case (Some src)
  show ?thesis
  proof (cases "st (target_conn self) t")
    case None
    then show ?thesis using Some by (simp add: migrate_batch_def Let_def)
  next
    case (Some tgt)
    have "\<forall>r \<in> set (select_window src a b). \<exists>r' \<in> set tgt. uq r r'"
      using assms \<open>st (source_conn self) s = Some src\<close> Some
      by (simp add: covered_def set_select_window)
    then have "executemany uq tgt (select_window src a b) = tgt"
      by (rule executemany_noop)
    then show ?thesis
      using \<open>st (source_conn self) s = Some src\<close> Some
      by (simp add: migrate_batch_def Let_def store_upd_same)
  qed
qed

lemma covered_subrange:
  "covered uq self s t lo hi st \<Longrightarrow> lo \<le> a \<Longrightarrow> b \<le> hi \<Longrightarrow> covered uq self s t a b st"
  by (fastforce simp: covered_def in_window_def)

lemma covered_missing:
  "st (source_conn self) s = None \<or> st (target_conn self) t = None \<Longrightarrow>
     covered uq self s t lo hi st"
  by (auto simp: covered_def)

lemma covered_aliased:
  "\<forall>r. uq r r \<Longrightarrow> aliased self s t \<Longrightarrow> covered uq self s t lo hi st"
  by (auto simp: covered_def aliased_def)

lemma migrate_batch_source_frame:
  "\<not> aliased self s t \<Longrightarrow>
     snd (migrate_batch self uq a b s t st) (source_conn self) s = st (source_conn self) s"
  by (auto simp: migrate_batch_def Let_def aliased_def split: option.splits)

lemma migrate_batch_covers:
  assumes refl: "\<forall>r. uq r r"
    and cov: "covered uq self s t lo a st"
    and run: "migrate_batch self uq a b s t st = (Inr k, st')"
  shows "covered uq self s t lo b st'"
proof (cases "aliased self s t")
  case True
  then show ?thesis using refl by (rule covered_aliased [rotated])
next
  case False
  obtain src where src: "st (source_conn self) s = Some src"
    using run by (auto simp: migrate_batch_def split: option.splits)
  have src': "st' (source_conn self) s = Some src"
    using migrate_batch_source_frame [OF False, of uq a b st] run src by simp
  show ?thesis
  proof (cases "select_window src a b = []")
    case True
    then have "st' = st" using run src by (simp add: migrate_batch_def)
    moreover have "\<forall>r \<in> set src. \<not> in_window a b r"
      using True by (simp add: select_window_empty)
    ultimately show ?thesis
      using cov src by (fastforce simp: covered_def in_window_def)
  next
    case nonempty: False
    obtain tgt where tgt: "st (target_conn self) t = Some tgt"
      using run src nonempty by (auto simp: migrate_batch_def Let_def split: option.splits)
    let ?tgt' = "executemany uq tgt (select_window src a b)"
    have tgt': "st' (target_conn self) t = Some ?tgt'"
      using run src nonempty tgt by (auto simp: migrate_batch_def Let_def)
    have "\<exists>r' \<in> set ?tgt'. uq r r'" if rin: "r \<in> set src" and win: "in_window lo b r" for r
    proof (cases "in_window a b r")
      case True
      then have "r \<in> set (select_window src a b)"
        using rin by (simp add: set_select_window)
      then show ?thesis using refl by (rule executemany_covers [rotated])
    next
      case False
      then have "in_window lo a r" using win by (auto simp: in_window_def)
      then obtain r' where "r' \<in> set tgt" "uq r r'"
        using cov src tgt rin by (auto simp: covered_def)
      then show ?thesis using set_executemany_mono [of tgt uq "select_window src a b"] by blast
    qed
    then show ?thesis using src' tgt' by (simp add: covered_def)
  qed
qed

section \<open>Properties of the loop\<close>

lemma migrate_loop_covered_noop:
  "covered uq self s t c hi st \<Longrightarrow>
     snd (migrate_loop self uq s t hi c tot n calls st) = st"
proof (induction self uq s t hi c tot n calls st rule: migrate_loop.induct)
  case (1 self uq s t hi c tot n calls st)
  show ?case
  proof (cases "c < hi")
    case False
    then show ?thesis by (simp add: migrate_loop.simps)
  next
    case True
    define e where "e = min (c + batch_interval) hi"
    have ce: "c \<le> e" "e \<le> hi"
      using True by (simp_all add: e_def batch_interval_def)
    obtain x st' where run: "migrate_batch self uq c e s t st = (x, st')"
      by (cases "migrate_batch self uq c e s t st")
    have "covered uq self s t c e st"
      using "1.prems" ce by (auto intro: covered_subrange)
    then have st': "st' = st"
      using migrate_batch_covered_noop [of uq self s t c e st] run by simp
    show ?thesis
    proof (cases x)
      case (Inl err)
      then show ?thesis
        using True run st' by (simp add: migrate_loop.simps [of self uq s t hi c] e_def [symmetric])
    next
      case (Inr k)
      have "covered uq self s t e hi st'"
        using "1.prems" ce st' by (auto intro: covered_subrange)
      then have "snd (migrate_loop self uq s t hi e (tot + k) (n + 1) (calls @ [(c, e, k)]) st') = st'"
        using "1.IH" [OF True e_def run [symmetric] Inr] by simp
      then show ?thesis
        using True run st' Inr
        by (simp add: migrate_loop.simps [of self uq s t hi c] e_def [symmetric])
    qed
  qed
qed


lemma migrate_loop_covers:
  "\<forall>r. uq r r \<Longrightarrow> covered uq self s t lo c st \<Longrightarrow>
     covered uq self s t lo (max c hi) (snd (migrate_loop self uq s t hi c tot n calls st))"
proof (induction self uq s t hi c tot n calls st rule: migrate_loop.induct)
  case (1 self uq s t hi c tot n calls st)
  show ?case
  proof (cases "c < hi")
    case False
    then show ?thesis using "1.prems" by (simp add: migrate_loop.simps max_def)
  next
    case True
    define e where "e = min (c + batch_interval) hi"
    have ce: "c < e" "e \<le> hi"
      using True by (simp_all add: e_def batch_interval_def)
    obtain x st' where run: "migrate_batch self uq c e s t st = (x, st')"
      by (cases "migrate_batch self uq c e s t st")
    show ?thesis
    proof (cases x)
      case (Inl err)
      then have "st' = st" "st (source_conn self) s = None \<or> st (target_conn self) t = None"
        using migrate_batch_error [of self uq c e s t st err st'] run by simp_all
      then have "covered uq self s t lo (max c hi) st'"
        by (simp add: covered_missing)
      then show ?thesis
        using True run Inl by (simp add: migrate_loop.simps [of self uq s t hi c] e_def [symmetric])
    next
      case (Inr k)
      have "covered uq self s t lo e st'"
        using migrate_batch_covers [OF "1.prems"(1) "1.prems"(2)] run Inr by simp
      then have "covered uq self s t lo (max e hi)
          (snd (migrate_loop self uq s t hi e (tot + k) (n + 1) (calls @ [(c, e, k)]) st'))"
        using "1.IH" [OF True e_def run [symmetric] Inr "1.prems"(1)] by simp
      moreover have "max e hi = max c hi" using ce by simp
      ultimately show ?thesis
        using True run Inr by (simp add: migrate_loop.simps [of self uq s t hi c] e_def [symmetric])
    qed
  qed
qed

lemma migrate_loop_source_frame:
  "\<not> aliased self s t \<Longrightarrow>
     snd (migrate_loop self uq s t hi c tot n calls st) (source_conn self) s
       = st (source_conn self) s"
proof (induction self uq s t hi c tot n calls st rule: migrate_loop.induct)
  case (1 self uq s t hi c tot n calls st)
  show ?case
  proof (cases "c < hi")
    case False
    then show ?thesis by (simp add: migrate_loop.simps)
  next
    case True
    define e where "e = min (c + batch_interval) hi"
    obtain x st' where run: "migrate_batch self uq c e s t st = (x, st')"
      by (cases "migrate_batch self uq c e s t st")
    have fr: "st' (source_conn self) s = st (source_conn self) s"
      using migrate_batch_source_frame [OF "1.prems", of uq c e st] run by simp
    show ?thesis
    proof (cases x)
      case (Inl err)
      then show ?thesis
        using True run fr by (simp add: migrate_loop.simps [of self uq s t hi c] e_def [symmetric])
    next
      case (Inr k)
      then show ?thesis
        using "1.IH" [OF True e_def run [symmetric] Inr "1.prems"] True run fr
        by (simp add: migrate_loop.simps [of self uq s t hi c] e_def [symmetric])
    qed
  qed
qed

lemma migrate_loop_trace:
  "migrate_loop self uq s t hi c tot n calls st = (Inr (tot', n', calls'), st') \<Longrightarrow>
     \<exists>new. calls' = calls @ new \<and> n' = n + length new \<and> tiles c hi new
       \<and> tot' = tot + sum_list (map (\<lambda>(a, b, k). k) new)"
proof (induction self uq s t hi c tot n calls st rule: migrate_loop.induct)
  case (1 self uq s t hi c tot n calls st)
  show ?case
  proof (cases "c < hi")
    case False
    then have "calls' = calls @ [] \<and> n' = n + length ([] :: batch_call list) \<and> tiles c hi []
       \<and> tot' = tot + sum_list (map (\<lambda>(a, b, k). k) ([] :: batch_call list))"
      using "1.prems" by (simp add: migrate_loop.simps)
    then show ?thesis by blast
  next
    case True
    define e where "e = min (c + batch_interval) hi"
    obtain x st1 where run: "migrate_batch self uq c e s t st = (x, st1)"
      by (cases "migrate_batch self uq c e s t st")
    show ?thesis
    proof (cases x)
      case (Inl err)
      then show ?thesis
        using True run "1.prems"
        by (simp add: migrate_loop.simps [of self uq s t hi c] e_def [symmetric])
    next
      case (Inr k)
      have "migrate_loop self uq s t hi e (tot + k) (n + 1) (calls @ [(c, e, k)]) st1
              = (Inr (tot', n', calls'), st')"
        using True run Inr "1.prems"
        by (simp add: migrate_loop.simps [of self uq s t hi c] e_def [symmetric])
      then obtain new where new: "calls' = (calls @ [(c, e, k)]) @ new"
          "n' = (n + 1) + length new" "tiles e hi new"
          "tot' = (tot + k) + sum_list (map (\<lambda>(a, b, k). k) new)"
        using "1.IH" [OF True e_def run [symmetric] Inr] by blast
      have "calls' = calls @ ((c, e, k) # new)" using new(1) by simp
      moreover have "n' = n + length ((c, e, k) # new)" using new(2) by simp
      moreover have "tiles c hi ((c, e, k) # new)" using new(3) True by (simp add: e_def)
      moreover have "tot' = tot + sum_list (map (\<lambda>(a, b, k). k) ((c, e, k) # new))"
        using new(4) by simp
      ultimately show ?thesis by blast
    qed
  qed
qed

lemma tiles_bounds:
  "tiles c hi ws \<Longrightarrow> (a, b, k) \<in> set ws \<Longrightarrow>
     c \<le> a \<and> a < b \<and> b \<le> hi \<and> b = min (a + batch_interval) hi"
proof (induction c hi ws rule: tiles.induct)
  case (1 c hi)
  then show ?case by simp
next
  case (2 c hi a' b' k' ws)
  show ?case
  proof (cases "(a, b, k) = (a', b', k')")
    case True
    then show ?thesis using "2.prems"(1) by (auto simp: batch_interval_def)
  next
    case False
    then have "(a, b, k) \<in> set ws" using "2.prems"(2) by auto
    moreover have "tiles b' hi ws" "c < b'" using "2.prems"(1) by (auto simp: batch_interval_def)
    ultimately show ?thesis using "2.IH" by fastforce
  qed
qed

lemma tiles_adjacent:
  "tiles c hi ws \<Longrightarrow> Suc i < length ws \<Longrightarrow> fst (ws ! Suc i) = fst (snd (ws ! i))"
proof (induction c hi ws arbitrary: i rule: tiles.induct)
  case (1 c hi)
  then show ?case by simp
next
  case (2 c hi a b k ws)
  show ?case
  proof (cases i)
    case 0
    then obtain w ws' where "ws = w # ws'" using "2.prems"(2) by (cases ws) auto
    then show ?thesis using 0 "2.prems"(1) by (cases w) auto
  next
    case (Suc j)
    then show ?thesis using "2.prems" "2.IH" [of j] by auto
  qed
qed

lemma tiles_unique_window:
  "tiles c hi ws \<Longrightarrow> c \<le> x \<Longrightarrow> x < hi \<Longrightarrow>
     length (filter (\<lambda>(a, b, k). a \<le> x \<and> x < b) ws) = 1"
proof (induction c hi ws rule: tiles.induct)
  case (1 c hi)
  then show ?case by simp
next
  case (2 c hi a b k ws)
  have b: "a = c" "b = min (c + batch_interval) hi" "tiles b hi ws" "c < b" "b \<le> hi"
    using "2.prems"(1) by (auto simp: batch_interval_def)
  show ?case
  proof (cases "x < b")
    case True
    have "filter (\<lambda>(a, b, k). a \<le> x \<and> x < b) ws = []"
    proof -
      have "\<not> (a' \<le> x \<and> x < b')" if "(a', b', k') \<in> set ws" for a' b' k'
        using tiles_bounds [OF b(3) that] True by simp
      then show ?thesis by (auto simp: filter_empty_conv)
    qed
    then show ?thesis using True "2.prems"(2) b(1) by simp
  next
    case False
    then show ?thesis using "2.IH" b "2.prems"(3) by simp
  qed
qed

lemma tiles_none_at_top:
  "tiles c hi ws \<Longrightarrow> hi \<le> x \<Longrightarrow> filter (\<lambda>(a, b, k). a \<le> x \<and> x < b) ws = []"
proof -
  assume t: "tiles c hi ws" and x: "hi \<le> x"
  have "\<not> (a \<le> x \<and> x < b)" if "(a, b, k) \<in> set ws" for a b k
    using tiles_bounds [OF t that] x by simp
  then show ?thesis by (auto simp: filter_empty_conv)
qed

lemma migrate_batch_count:
  "migrate_batch self uq a b s t st = (Inr k, st') \<Longrightarrow> st (source_conn self) s = Some src \<Longrightarrow>
     k = length (select_window src a b)"
  by (auto simp: migrate_batch_def Let_def split: option.splits if_splits)

lemma migrate_batch_later_rows:
  assumes run: "migrate_batch self uq a b s t st = (Inr k, st')"
    and src: "st (source_conn self) s = Some src"
  shows "\<exists>src'. st' (source_conn self) s = Some src'
           \<and> filter (in_window b hi) src' = filter (in_window b hi) src"
proof (cases "aliased self s t \<and> select_window src a b \<noteq> []")
  case False
  then have "st' (source_conn self) s = Some src"
    using run src
    by (auto simp: migrate_batch_def Let_def aliased_def split: option.splits if_splits)
  then show ?thesis by simp
next
  case True
  then have "st' (source_conn self) s = Some (executemany uq src (select_window src a b))"
    using run src
    by (auto simp: migrate_batch_def Let_def aliased_def split: option.splits if_splits)
  moreover obtain added where added: "executemany uq src (select_window src a b) = src @ added"
      "set added \<subseteq> set (select_window src a b)"
    using executemany_appends [of uq src "select_window src a b"] by blast
  moreover have "filter (in_window b hi) added = []"
    using added(2) by (auto simp: filter_empty_conv set_select_window in_window_def)
  ultimately show ?thesis by simp
qed

lemma length_filter_window_split:
  "c \<le> e \<Longrightarrow> e \<le> hi \<Longrightarrow>
     length (filter (in_window c hi) xs)
       = length (filter (in_window c e) xs) + length (filter (in_window e hi) xs)"
  by (induction xs) (auto simp: in_window_def)

lemma migrate_loop_total:
  "migrate_loop self uq s t hi c tot n calls st = (Inr (tot', n', calls'), st') \<Longrightarrow>
     st (source_conn self) s = Some src \<Longrightarrow>
     tot' = tot + length (filter (in_window c hi) src)"
proof (induction self uq s t hi c tot n calls st arbitrary: src rule: migrate_loop.induct)
  case (1 self uq s t hi c tot n calls st)
  show ?case
  proof (cases "c < hi")
    case False
    then have "filter (in_window c hi) src = []"
      by (auto simp: filter_empty_conv in_window_def)
    then show ?thesis using False "1.prems"(1) by (simp add: migrate_loop.simps)
  next
    case True
    define e where "e = min (c + batch_interval) hi"
    have ce: "c \<le> e" "e \<le> hi"
      using True by (simp_all add: e_def batch_interval_def)
    obtain x st1 where run: "migrate_batch self uq c e s t st = (x, st1)"
      by (cases "migrate_batch self uq c e s t st")
    show ?thesis
    proof (cases x)
      case (Inl err)
      then show ?thesis
        using True run "1.prems"(1)
        by (simp add: migrate_loop.simps [of self uq s t hi c] e_def [symmetric])
    next
      case (Inr k)
      have k: "k = length (filter (in_window c e) src)"
        using migrate_batch_count [of self uq c e s t st k st1 src] run Inr "1.prems"(2)
        by (simp add: length_select_window)
      obtain src1 where src1: "st1 (source_conn self) s = Some src1"
          "filter (in_window e hi) src1 = filter (in_window e hi) src"
        using migrate_batch_later_rows [of self uq c e s t st k st1 src hi] run Inr "1.prems"(2)
        by auto
      have "migrate_loop self uq s t hi e (tot + k) (n + 1) (calls @ [(c, e, k)]) st1
              = (Inr (tot', n', calls'), st')"
        using True run Inr "1.prems"(1)
        by (simp add: migrate_loop.simps [of self uq s t hi c] e_def [symmetric])
      then have "tot' = (tot + k) + length (filter (in_window e hi) src1)"
        using "1.IH" [OF True e_def run [symmetric] Inr _ src1(1)] by simp
      then show ?thesis
        using k src1(2) length_filter_window_split [OF ce, of src] by simp
    qed
  qed
qed

lemma migrate_all_windows:
  assumes run: "migrate_all self uq s t st = (Inr (tot, n, calls), st')"
    and src: "st (source_conn self) s = Some src"
  shows "src \<noteq> [] \<and> n = length calls
           \<and> tiles (Min (set (map t_stamp src))) (Max (set (map t_stamp src))) calls
           \<and> tot = sum_list (map (\<lambda>(a, b, k). k) calls)"
proof -
  have ne: "src \<noteq> []"
    using run src by (auto simp: migrate_all_def select_min_max_def)
  then have "migrate_loop self uq s t (Max (set (map t_stamp src))) (Min (set (map t_stamp src)))
               0 0 [] st = (Inr (tot, n, calls), st')"
    using run src by (simp add: migrate_all_def select_min_max_def)
  then show ?thesis
    using ne migrate_loop_trace [of self uq s t _ _ 0 0 "[]" st tot n calls st'] by auto
qed

text \<open>
  Whatever the table holds, no window of a run reaches the largest \<^verbatim>\<open>t_stamp\<close>:
  each window ends at or below \<^verbatim>\<open>max_ts\<close> and its upper bound is exclusive.
\<close>

lemma migrate_all_max_row_unread:
  assumes run: "migrate_all self uq s t st = (Inr (tot, n, calls), st')"
    and src: "st (source_conn self) s = Some src"
    and top: "t_stamp r = Max (set (map t_stamp src))"
    and call: "(a, b, k) \<in> set calls"
  shows "\<not> in_window a b r"
proof -
  have "tiles (Min (set (map t_stamp src))) (Max (set (map t_stamp src))) calls"
    using migrate_all_windows [OF run src] by simp
  then have "b \<le> Max (set (map t_stamp src))"
    using tiles_bounds call by blast
  then show ?thesis using top by (simp add: in_window_def)
qed

text \<open>Every time stamp from the smallest up to, but excluding, the largest lies in one window.\<close>

lemma migrate_all_window_cover:
  assumes run: "migrate_all self uq s t st = (Inr (tot, n, calls), st')"
    and src: "st (source_conn self) s = Some src"
    and x: "Min (set (map t_stamp src)) \<le> x" "x < Max (set (map t_stamp src))"
  shows "length (filter (\<lambda>(a, b, k). a \<le> x \<and> x < b) calls) = 1"
proof -
  have "tiles (Min (set (map t_stamp src))) (Max (set (map t_stamp src))) calls"
    using migrate_all_windows [OF run src] by simp
  then show ?thesis using x by (rule tiles_unique_window)
qed

text \<open>A table with one row has \<^verbatim>\<open>min_ts = max_ts\<close>, so the loop body never runs.\<close>

lemma migrate_all_single_row:
  "st (source_conn self) s = Some [r] \<Longrightarrow> migrate_all self uq s t st = (Inr (0, 0, []), st)"
  by (simp add: migrate_all_def select_min_max_def migrate_loop.simps)

lemma migrate_loop_batch_size:
  "migrate_loop (self\<lparr>batch_size := bs\<rparr>) uq s t hi c tot n calls st
     = migrate_loop self uq s t hi c tot n calls st"
proof (induction self uq s t hi c tot n calls st rule: migrate_loop.induct)
  case (1 self uq s t hi c tot n calls st)
  have b: "migrate_batch (self\<lparr>batch_size := bs\<rparr>) uq a b s t st' = migrate_batch self uq a b s t st'"
    for a b st'
    by (simp add: migrate_batch_def Let_def split: option.splits)
  show ?case
  proof (cases "c < hi")
    case False
    then show ?thesis
      by (simp add: migrate_loop.simps [of _ uq s t hi c])
  next
    case True
    define e where "e = min (c + batch_interval) hi"
    obtain x st1 where run: "migrate_batch self uq c e s t st = (x, st1)"
      by (cases "migrate_batch self uq c e s t st")
    show ?thesis
    proof (cases x)
      case (Inl err)
      then show ?thesis
        using True run b by (simp add: migrate_loop.simps [of _ uq s t hi c] e_def [symmetric])
    next
      case (Inr k)
      then show ?thesis
        using "1.IH" [OF True e_def run [symmetric] Inr] True run b
        by (simp add: migrate_loop.simps [of _ uq s t hi c] e_def [symmetric])
    qed
  qed
qed

section \<open>Evaluating the scenarios\<close>

lemmas scenario_defs =
  migrate_all_def select_min_max_def historian_db_def mig_def reading_def migrate_batch_def
  select_window_def in_window_def batch_interval_def executemany_def insert_do_nothing_def
  tag_time_key_def migrate_loop.simps Let_def

text \<open>
  On a target without any uniqueness constraint nothing conflicts, and a second run
  inserts the rows it reads once more.
\<close>

lemma migrate_all_rerun_no_constraint:
  "snd (migrate_all mig (\<lambda>_ _. False) ''sqlth_1_data'' ''sqlth_1_data_ts''
          (historian_db [reading 1 1000, reading 2 5000] [])) 0 ''sqlth_1_data_ts''
     = Some [reading 1 1000] \<and>
   snd (migrate_all mig (\<lambda>_ _. False) ''sqlth_1_data'' ''sqlth_1_data_ts''
          (historian_db [reading 1 1000, reading 2 5000] [reading 1 1000])) 0 ''sqlth_1_data_ts''
     = Some [reading 1 1000, reading 1 1000]"
  by (simp add: scenario_defs)

section \<open>The claims\<close>

text \<open>
  C1. The claim: for every non-empty source table the rows with the largest
  \<^verbatim>\<open>t_stamp\<close> fall in exactly one window and are migrated. The program clips the
  last window to \<^verbatim>\<open>max_ts\<close> and reads \<^verbatim>\<open>t_stamp < end_ts\<close>: on a source with
  rows at 1000 and 5000 it makes the single call \<open>(1000, 5000)\<close>, which returns 1, the
  target receives the row at 1000 only, and the row at 5000 is outside the window.
\<close>

theorem migrate_all_skips_max_row:
  "fst (migrate_all mig tag_time_key ''sqlth_1_data'' ''sqlth_1_data_ts''
          (historian_db [reading 1 1000, reading 2 5000] []))
     = Inr (1, 1, [(1000, 5000, 1)]) \<and>
   snd (migrate_all mig tag_time_key ''sqlth_1_data'' ''sqlth_1_data_ts''
          (historian_db [reading 1 1000, reading 2 5000] [])) 0 ''sqlth_1_data_ts''
     = Some [reading 1 1000] \<and>
   \<not> in_window 1000 5000 (reading 2 5000)"
  by (simp add: scenario_defs)

text \<open>
  C2. The claim: with rows at 1000, 90000000 and 90000001 the run has two windows, the
  second holding the rows at 90000000 and 90000001, and returns 3. The program does
  make two calls, but the second one, \<open>(86401000, 90000001)\<close>, reads the row at
  90000000 only; the run returns 2 and the target holds two rows.
\<close>

theorem migrate_all_three_records:
  "fst (migrate_all mig tag_time_key ''sqlth_1_data'' ''sqlth_1_data_ts''
          (historian_db [reading 1 1000, reading 1 90000000, reading 1 90000001] []))
     = Inr (2, 2, [(1000, 86401000, 1), (86401000, 90000001, 1)]) \<and>
   select_window [reading 1 1000, reading 1 90000000, reading 1 90000001] 86401000 90000001
     = [reading 1 90000000] \<and>
   snd (migrate_all mig tag_time_key ''sqlth_1_data'' ''sqlth_1_data_ts''
          (historian_db [reading 1 1000, reading 1 90000000, reading 1 90000001] []))
       0 ''sqlth_1_data_ts''
     = Some [reading 1 1000, reading 1 90000000]"
  by (simp add: scenario_defs)

text \<open>
  C3. The claim: a source table with exactly one row gives exactly one window and a
  total of 1. In the program \<^verbatim>\<open>min_ts = max_ts\<close> there, the loop test is false at
  once: no call is made, the total is 0 and the store is as before.
\<close>

theorem migrate_all_single_record:
  "migrate_all mig tag_time_key ''sqlth_1_data'' ''sqlth_1_data_ts''
     (historian_db [reading 1 1000] [])
     = (Inr (0, 0, []), historian_db [reading 1 1000] [])"
  by (simp add: scenario_defs)

text \<open>
  C4. The claim: the windows are strictly increasing, each starts where the previous
  one ended, and every \<^verbatim>\<open>t_stamp\<close> of the source lies in exactly one window. With
  rows at 1000, 86401000 and 172801000 the two windows are adjacent and increasing,
  but the row at 172801000 lies in none of them.
\<close>

theorem migrate_all_windows_miss_max:
  "fst (migrate_all mig tag_time_key ''sqlth_1_data'' ''sqlth_1_data_ts''
          (historian_db [reading 1 1000, reading 1 86401000, reading 1 172801000] []))
     = Inr (2, 2, [(1000, 86401000, 1), (86401000, 172801000, 1)]) \<and>
   filter (\<lambda>(start_ts, end_ts, migrated). in_window start_ts end_ts (reading 1 172801000))
       [(1000, 86401000, 1), (86401000, 172801000, 1 :: nat)] = []"
  by (simp add: scenario_defs)

text \<open>
  C5. The claim: on a source table without rows the run returns 0 and raises nothing.
  The program has no test for that case: \<^verbatim>\<open>MIN\<close> and \<^verbatim>\<open>MAX\<close> are \<^verbatim>\<open>None\<close> and
  the loop test \<^verbatim>\<open>None < None\<close> raises \<^verbatim>\<open>TypeError\<close>.
\<close>

theorem migrate_all_empty_table:
  "migrate_all mig tag_time_key ''sqlth_1_data'' ''sqlth_1_data_ts'' (historian_db [] [])
     = (Inl TypeError, historian_db [] [])"
  by (simp add: scenario_defs)

text \<open>
  C6. Running \<^verbatim>\<open>migrate_all\<close> a second time leaves the store as the first run left
  it, so the target has the same rows and the same row count: every row the second run
  reads is skipped by \<^verbatim>\<open>ON CONFLICT DO NOTHING\<close>. The uniqueness constraint of the
  target is taken to reject an exact duplicate (\<open>uq r r\<close> for every row).
\<close>

theorem migrate_all_rerun_idempotent:
  assumes refl: "\<forall>r. uq r r"
  shows "snd (migrate_all self uq s t (snd (migrate_all self uq s t st)))
           = snd (migrate_all self uq s t st)"
proof (cases "st (source_conn self) s")
  case None
  then show ?thesis by (simp add: migrate_all_def)
next
  case (Some src)
  show ?thesis
  proof (cases "src = []")
    case True
    then show ?thesis using Some by (simp add: migrate_all_def select_min_max_def)
  next
    case False
    define lo where "lo = Min (set (map t_stamp src))"
    define hi where "hi = Max (set (map t_stamp src))"
    define st1 where "st1 = snd (migrate_loop self uq s t hi lo 0 0 [] st)"
    have first: "snd (migrate_all self uq s t st) = st1"
      using Some False by (simp add: migrate_all_def select_min_max_def st1_def lo_def hi_def)
    have "covered uq self s t lo lo st"
      by (auto simp: covered_def in_window_def)
    then have cov: "covered uq self s t lo (max lo hi) st1"
      unfolding st1_def using refl by (rule migrate_loop_covers [rotated])
    have "snd (migrate_all self uq s t st1) = st1"
    proof (cases "aliased self s t")
      case True
      show ?thesis
      proof (cases "st1 (source_conn self) s")
        case None
        then show ?thesis by (simp add: migrate_all_def)
      next
        case (Some src1)
        have "covered uq self s t a b st1" for a b
          by (rule covered_aliased [of uq, OF refl True])
        then show ?thesis
          using Some migrate_loop_covered_noop [of uq self s t _ _ st1]
          by (simp add: migrate_all_def select_min_max_def)
      qed
    next
      case na: False
      have "st1 (source_conn self) s = Some src"
        using migrate_loop_source_frame [OF na] Some by (simp add: st1_def)
      moreover have "covered uq self s t lo hi st1"
        using cov by (rule covered_subrange) simp_all
      ultimately show ?thesis
        using False migrate_loop_covered_noop [of uq self s t lo hi st1]
        by (simp add: migrate_all_def select_min_max_def lo_def hi_def)
    qed
    then show ?thesis using first by simp
  qed
qed

text \<open>The key \<open>(tagid, t_stamp)\<close> rejects exact duplicates; the second run adds nothing.\<close>

theorem migrate_all_rerun_idempotent_witness:
  "(\<forall>r. tag_time_key r r) \<and>
   snd (migrate_all mig tag_time_key ''sqlth_1_data'' ''sqlth_1_data_ts''
     (snd (migrate_all mig tag_time_key ''sqlth_1_data'' ''sqlth_1_data_ts''
        (historian_db [reading 1 1000, reading 1 90000000, reading 1 90000001] []))))
     0 ''sqlth_1_data_ts'' = Some [reading 1 1000, reading 1 90000000]"
proof -
  have h: "\<forall>r. tag_time_key r r" by (simp add: tag_time_key_def)
  have e: "snd (migrate_all mig tag_time_key ''sqlth_1_data'' ''sqlth_1_data_ts''
        (historian_db [reading 1 1000, reading 1 90000000, reading 1 90000001] []))
     0 ''sqlth_1_data_ts'' = Some [reading 1 1000, reading 1 90000000]"
    by (simp add: scenario_defs)
  show ?thesis
    using h e
    by (simp only: migrate_all_rerun_idempotent [where uq = tag_time_key, OF h] simp_thms)
qed

text \<open>
  C7. When no row of the source table lies in the window, \<^verbatim>\<open>migrate_batch\<close> returns
  0 and the store, the target table included, is unchanged: the function returns
  before the insert.
\<close>

theorem migrate_batch_empty_window:
  assumes "st (source_conn self) source_table = Some src"
    and "\<forall>r \<in> set src. \<not> in_window start_ts end_ts r"
  shows "migrate_batch self uq start_ts end_ts source_table target_table st = (Inr 0, st)"
  using assms by (simp add: migrate_batch_def select_window_empty)

theorem migrate_batch_empty_window_witness:
  "historian_db [reading 1 1000, reading 1 90000000] [] (source_conn mig) ''sqlth_1_data''
     = Some [reading 1 1000, reading 1 90000000] \<and>
   \<not> in_window 2000 3000 (reading 1 1000) \<and>
   \<not> in_window 2000 3000 (reading 1 90000000) \<and>
   migrate_batch mig tag_time_key 2000 3000 ''sqlth_1_data'' ''sqlth_1_data_ts''
     (historian_db [reading 1 1000, reading 1 90000000] [])
     = (Inr 0, historian_db [reading 1 1000, reading 1 90000000] [])"
proof -
  have a: "historian_db [reading 1 1000, reading 1 90000000] [] (source_conn mig) ''sqlth_1_data''
     = Some [reading 1 1000, reading 1 90000000]"
    by (simp add: historian_db_def mig_def)
  have b: "\<forall>r \<in> set [reading 1 1000, reading 1 90000000]. \<not> in_window 2000 3000 r"
    by (simp add: in_window_def reading_def)
  show ?thesis
    using a b
      migrate_batch_empty_window [where self = mig and st = "historian_db [reading 1 1000, reading 1 90000000] []"
            and src = "[reading 1 1000, reading 1 90000000]" and start_ts = 2000
            and end_ts = 3000 and uq = tag_time_key and target_table = "''sqlth_1_data_ts''",
          OF a b]
    by simp
qed

text \<open>
  C8. \<^verbatim>\<open>validate_migration\<close> leaves the store unchanged. When both tables exist
  it returns normally, and each of the three comparisons (row count, time stamp range,
  number of distinct tags) that differs is logged at level \<open>WARNING\<close>.
\<close>

theorem validate_migration_read_only:
  "snd (snd (validate_migration self s t st)) = st \<and>
   (\<forall>src tgt. st (source_conn self) s = Some src \<longrightarrow> st (target_conn self) t = Some tgt \<longrightarrow>
      fst (validate_migration self s t st) = Inr () \<and>
      (length src \<noteq> length tgt \<longrightarrow>
         (WARNING, RecordCountMismatch (int (length src) - int (length tgt)))
           \<in> set (fst (snd (validate_migration self s t st)))) \<and>
      (select_min_max src \<noteq> select_min_max tgt \<longrightarrow>
         (WARNING, TimestampRangeMismatch) \<in> set (fst (snd (validate_migration self s t st)))) \<and>
      (count_distinct_tagid src \<noteq> count_distinct_tagid tgt \<longrightarrow>
         (WARNING, TagCountMismatch (count_distinct_tagid src) (count_distinct_tagid tgt))
           \<in> set (fst (snd (validate_migration self s t st)))))"
  by (simp add: validate_migration_def Let_def split: option.splits)

theorem validate_migration_read_only_witness:
  "historian_db [reading 1 1000, reading 1 90000000, reading 2 90000001]
       [reading 1 1000, reading 1 90000000] (source_conn mig) ''sqlth_1_data''
     = Some [reading 1 1000, reading 1 90000000, reading 2 90000001] \<and>
   historian_db [reading 1 1000, reading 1 90000000, reading 2 90000001]
       [reading 1 1000, reading 1 90000000] (target_conn mig) ''sqlth_1_data_ts''
     = Some [reading 1 1000, reading 1 90000000] \<and>
   validate_migration mig ''sqlth_1_data'' ''sqlth_1_data_ts''
       (historian_db [reading 1 1000, reading 1 90000000, reading 2 90000001]
          [reading 1 1000, reading 1 90000000])
     = (Inr (),
        [(INFO, Validating), (INFO, SourceRecords 3), (INFO, TargetRecords 2),
         (WARNING, RecordCountMismatch 1), (WARNING, TimestampRangeMismatch),
         (WARNING, TagCountMismatch 2 1)],
        historian_db [reading 1 1000, reading 1 90000000, reading 2 90000001]
          [reading 1 1000, reading 1 90000000])"
  using validate_migration_read_only [where self = mig and s = "''sqlth_1_data''" and t = "''sqlth_1_data_ts''"
      and st = "historian_db [reading 1 1000, reading 1 90000000, reading 2 90000001]
          [reading 1 1000, reading 1 90000000]"]
  by (simp add: validate_migration_def historian_db_def mig_def reading_def select_min_max_def
      count_distinct_tagid_def)

text \<open>
  C9. \<^verbatim>\<open>migrate_batch\<close> returns the number of rows it read from the source window,
  whatever the insert did with them; the total of \<^verbatim>\<open>migrate_all\<close> is the sum over
  its calls, which is the number of source rows from \<^verbatim>\<open>min_ts\<close> up to, but
  excluding, \<^verbatim>\<open>max_ts\<close>.
\<close>

theorem migrate_counts_rows_read:
  assumes src: "st (source_conn self) s = Some src"
  shows "(\<forall>k st'. migrate_batch self uq a b s t st = (Inr k, st') \<longrightarrow>
            k = length (select_window src a b)) \<and>
         (\<forall>tot n calls st'. migrate_all self uq s t st = (Inr (tot, n, calls), st') \<longrightarrow>
            tot = sum_list (map (\<lambda>(start_ts, end_ts, migrated). migrated) calls) \<and>
            tot = length (filter (in_window (Min (set (map t_stamp src)))
                                    (Max (set (map t_stamp src)))) src))"
proof -
  have "k = length (select_window src a b)"
    if "migrate_batch self uq a b s t st = (Inr k, st')" for k st'
    using migrate_batch_count [OF that src] .
  moreover have "tot = sum_list (map (\<lambda>(start_ts, end_ts, migrated). migrated) calls)"
    if "migrate_all self uq s t st = (Inr (tot, n, calls), st')" for tot n calls st'
    using migrate_all_windows [OF that src] by simp
  moreover have "tot = length (filter (in_window (Min (set (map t_stamp src)))
                                    (Max (set (map t_stamp src)))) src)"
    if run: "migrate_all self uq s t st = (Inr (tot, n, calls), st')" for tot n calls st'
  proof -
    have "src \<noteq> []"
      using run src by (auto simp: migrate_all_def select_min_max_def)
    then have "migrate_loop self uq s t (Max (set (map t_stamp src))) (Min (set (map t_stamp src)))
                 0 0 [] st = (Inr (tot, n, calls), st')"
      using run src by (simp add: migrate_all_def select_min_max_def)
    then show ?thesis
      using migrate_loop_total [of self uq s t _ _ 0 0 "[]" st tot n calls st' src] src by simp
  qed
  ultimately show ?thesis by blast
qed

text \<open>
  A run on a target that already holds the rows: the total is 2, the target still has
  its two rows, so no row was added.
\<close>

theorem migrate_counts_rows_read_witness:
  "historian_db [reading 1 1000, reading 1 90000000, reading 1 90000001]
       [reading 1 1000, reading 1 90000000] (source_conn mig) ''sqlth_1_data''
     = Some [reading 1 1000, reading 1 90000000, reading 1 90000001] \<and>
   fst (migrate_all mig tag_time_key ''sqlth_1_data'' ''sqlth_1_data_ts''
     (historian_db [reading 1 1000, reading 1 90000000, reading 1 90000001]
        [reading 1 1000, reading 1 90000000]))
     = Inr (2, 2, [(1000, 86401000, 1), (86401000, 90000001, 1)]) \<and>
   snd (migrate_all mig tag_time_key ''sqlth_1_data'' ''sqlth_1_data_ts''
     (historian_db [reading 1 1000, reading 1 90000000, reading 1 90000001]
        [reading 1 1000, reading 1 90000000])) 0 ''sqlth_1_data_ts''
     = Some [reading 1 1000, reading 1 90000000] \<and>
   length (filter (in_window 1000 90000001)
       [reading 1 1000, reading 1 90000000, reading 1 90000001]) = 2"
proof -
  have a: "historian_db [reading 1 1000, reading 1 90000000, reading 1 90000001]
       [reading 1 1000, reading 1 90000000] (source_conn mig) ''sqlth_1_data''
     = Some [reading 1 1000, reading 1 90000000, reading 1 90000001]"
    by (simp add: historian_db_def mig_def)
  have b: "fst (migrate_all mig tag_time_key ''sqlth_1_data'' ''sqlth_1_data_ts''
     (historian_db [reading 1 1000, reading 1 90000000, reading 1 90000001]
        [reading 1 1000, reading 1 90000000]))
     = Inr (2, 2, [(1000, 86401000, 1), (86401000, 90000001, 1)])"
    by (simp add: scenario_defs Let_def)
  have b': "migrate_all mig tag_time_key ''sqlth_1_data'' ''sqlth_1_data_ts''
     (historian_db [reading 1 1000, reading 1 90000000, reading 1 90000001]
        [reading 1 1000, reading 1 90000000])
     = (Inr (2, 2, [(1000, 86401000, 1), (86401000, 90000001, 1)]),
        snd (migrate_all mig tag_time_key ''sqlth_1_data'' ''sqlth_1_data_ts''
          (historian_db [reading 1 1000, reading 1 90000000, reading 1 90000001]
             [reading 1 1000, reading 1 90000000])))"
    using b by (simp add: prod_eq_iff)
  have c: "snd (migrate_all mig tag_time_key ''sqlth_1_data'' ''sqlth_1_data_ts''
     (historian_db [reading 1 1000, reading 1 90000000, reading 1 90000001]
        [reading 1 1000, reading 1 90000000])) 0 ''sqlth_1_data_ts''
     = Some [reading 1 1000, reading 1 90000000]"
    by (simp add: scenario_defs Let_def)
  have d: "Min (set (map t_stamp [reading 1 1000, reading 1 90000000, reading 1 90000001])) = 1000"
    "Max (set (map t_stamp [reading 1 1000, reading 1 90000000, reading 1 90000001])) = 90000001"
    by (simp_all add: reading_def)
  have "2 = length (filter (in_window 1000 90000001)
       [reading 1 1000, reading 1 90000000, reading 1 90000001])"
    using migrate_counts_rows_read [where self = mig and uq = tag_time_key and s = "''sqlth_1_data''"
            and t = "''sqlth_1_data_ts''" and a = 0 and b = 0
            and st = "historian_db [reading 1 1000, reading 1 90000000, reading 1 90000001]
                        [reading 1 1000, reading 1 90000000]", OF a] b'
    unfolding d by blast
  then show ?thesis using a b c by simp
qed

text \<open>
  C10. The field \<^verbatim>\<open>batch_size\<close> is read by none of the operations: changing it
  changes no result. Every window of a run ends at
  \<open>min (start + 86400000) max_ts\<close>, whatever \<^verbatim>\<open>batch_size\<close> is.
\<close>

theorem batch_size_unused:
  "migrate_batch (self\<lparr>batch_size := bs\<rparr>) uq a b s t st = migrate_batch self uq a b s t st \<and>
   migrate_all (self\<lparr>batch_size := bs\<rparr>) uq s t st = migrate_all self uq s t st \<and>
   validate_migration (self\<lparr>batch_size := bs\<rparr>) s t st = validate_migration self s t st \<and>
   (\<forall>src tot n calls st'.
      st (source_conn self) s = Some src \<longrightarrow>
      migrate_all (self\<lparr>batch_size := bs\<rparr>) uq s t st = (Inr (tot, n, calls), st') \<longrightarrow>
      (\<forall>(w1, w2, k) \<in> set calls. w2 = min (w1 + 86400000) (Max (set (map t_stamp src)))))"
proof -
  have a: "migrate_batch (self\<lparr>batch_size := bs\<rparr>) uq a b s t st = migrate_batch self uq a b s t st"
    by (simp add: migrate_batch_def Let_def split: option.splits)
  have b: "migrate_all (self\<lparr>batch_size := bs\<rparr>) uq s t st = migrate_all self uq s t st"
    by (simp add: migrate_all_def migrate_loop_batch_size split: option.splits prod.splits)
  have c: "validate_migration (self\<lparr>batch_size := bs\<rparr>) s t st = validate_migration self s t st"
    by (simp add: validate_migration_def split: option.splits)
  have d: "w2 = min (w1 + 86400000) (Max (set (map t_stamp src)))"
    if "st (source_conn self) s = Some src"
      and "migrate_all (self\<lparr>batch_size := bs\<rparr>) uq s t st = (Inr (tot, n, calls), st')"
      and "(w1, w2, k) \<in> set calls"
    for src tot n calls st' w1 w2 k
  proof -
    have "tiles (Min (set (map t_stamp src))) (Max (set (map t_stamp src))) calls"
      using migrate_all_windows [of self uq s t st tot n calls st' src] that(1,2) b by simp
    then show ?thesis
      using tiles_bounds that(3) by (fastforce simp: batch_interval_def)
  qed
  show ?thesis using a b c d by blast
qed

theorem batch_size_unused_witness:
  "historian_db [reading 1 1000, reading 1 90000000, reading 2 90000001] [] (source_conn mig)
       ''sqlth_1_data'' = Some [reading 1 1000, reading 1 90000000, reading 2 90000001] \<and>
   fst (migrate_all (mig\<lparr>batch_size := 5\<rparr>) tag_time_key ''sqlth_1_data'' ''sqlth_1_data_ts''
     (historian_db [reading 1 1000, reading 1 90000000, reading 2 90000001] []))
     = Inr (2, 2, [(1000, 86401000, 1), (86401000, 90000001, 1)]) \<and>
   (86401000 :: int) = min (1000 + 86400000) 90000001 \<and>
   (90000001 :: int) = min (86401000 + 86400000) 90000001"
  using batch_size_unused [where self = mig and bs = 5 and uq = tag_time_key and a = 0 and b = 0
      and s = "''sqlth_1_data''" and t = "''sqlth_1_data_ts''"
      and st = "historian_db [reading 1 1000, reading 1 90000000, reading 2 90000001] []"]
  by (simp add: scenario_defs)

end
